theory Spec2Isabelle
  imports Main "HOL-Library.Sublist"
begin

section \<open>Data model\<close>

text \<open>
  The sample type of the component (\<^verbatim>\<open>interface Metrics\<close>): two fields of the
  JavaScript type \<^verbatim>\<open>number\<close> and a string timestamp. The buffering code never
  computes with or compares the two numbers, so their representation is a type
  parameter; every result below holds for any choice of it.
\<close>

record 'num Metrics =
  block_height :: 'num
  btc_price :: 'num
  timestamp :: string

text \<open>
  The two pieces of component state (\<^verbatim>\<open>useState<Metrics[]>([])\<close> and
  \<^verbatim>\<open>useState<string | null>(null)\<close>).
\<close>

record 'num component_state =
  metrics :: "'num Metrics list"
  error :: "string option"

definition initial_state :: "'num component_state" where
  "initial_state = \<lparr>metrics = [], error = None\<rparr>"

section \<open>The array operations used by the state updater\<close>

text \<open>
  \<^verbatim>\<open>Array.prototype.findIndex\<close>: the index of the first element satisfying the
  predicate, scanning from index 0, and \<open>-1\<close> when there is none.
\<close>

fun findIndex_from :: "('a \<Rightarrow> bool) \<Rightarrow> int \<Rightarrow> 'a list \<Rightarrow> int" where
  "findIndex_from p k [] = - 1"
| "findIndex_from p k (x # xs) = (if p x then k else findIndex_from p (k + 1) xs)"

definition findIndex :: "('a \<Rightarrow> bool) \<Rightarrow> 'a list \<Rightarrow> int" where
  "findIndex p self = findIndex_from p 0 self"

text \<open>
  \<^verbatim>\<open>Array.prototype.filter\<close> with the three-argument callback
  \<^verbatim>\<open>(element, index, array)\<close>: the elements are visited in index order and the
  callback always sees the whole array.
\<close>

fun filter_from :: "('a \<Rightarrow> int \<Rightarrow> 'a list \<Rightarrow> bool) \<Rightarrow> 'a list \<Rightarrow> int \<Rightarrow> 'a list \<Rightarrow> 'a list" where
  "filter_from f self k [] = []"
| "filter_from f self k (x # xs) =
     (if f x k self then x # filter_from f self (k + 1) xs
      else filter_from f self (k + 1) xs)"

definition array_filter :: "('a \<Rightarrow> int \<Rightarrow> 'a list \<Rightarrow> bool) \<Rightarrow> 'a list \<Rightarrow> 'a list" where
  "array_filter f self = filter_from f self 0 self"

text \<open>
  \<^verbatim>\<open>Array.prototype.slice(start)\<close> with the end omitted: a negative start counts
  from the end and is clamped at 0, a start beyond the length is clamped at the length.
\<close>

definition slice :: "int \<Rightarrow> 'a list \<Rightarrow> 'a list" where
  "slice start xs =
     (let len = int (length xs);
          k = (if start < 0 then max (len + start) 0 else min start len)
      in drop (nat k) xs)"

section \<open>The state updater of fetchMetrics\<close>

text \<open>
  The function passed to \<^verbatim>\<open>setMetrics\<close>, statement by statement. The
  specification calls it \<open>merge\<close>; its second argument is \<^verbatim>\<open>response.data\<close>.
\<close>

definition combinedMetrics :: "'num Metrics list \<Rightarrow> 'num Metrics list \<Rightarrow> 'num Metrics list" where
  "combinedMetrics prevMetrics data = prevMetrics @ data"

definition uniqueMetrics :: "'num Metrics list \<Rightarrow> 'num Metrics list" where
  "uniqueMetrics combined =
     array_filter
       (\<lambda>metric index self. index = findIndex (\<lambda>m. timestamp m = timestamp metric) self)
       combined"

definition merge :: "'num Metrics list \<Rightarrow> 'num Metrics list \<Rightarrow> 'num Metrics list" where
  "merge prevMetrics data = slice (- 10) (uniqueMetrics (combinedMetrics prevMetrics data))"

section \<open>The merge operation in the words of the specification\<close>

text \<open>
  A second definition, written from the three steps of the specification and
  not from the code: concatenate, keep the first occurrence of every timestamp
  (\<open>seen\<close> holds the timestamps met so far), keep the last \<open>capacity\<close> elements.
\<close>

definition capacity :: nat where
  "capacity = 10"

fun spec_dedup :: "string list \<Rightarrow> 'num Metrics list \<Rightarrow> 'num Metrics list" where
  "spec_dedup seen [] = []"
| "spec_dedup seen (x # xs) =
     (if timestamp x \<in> set seen then spec_dedup seen xs
      else x # spec_dedup (timestamp x # seen) xs)"

definition spec_truncate :: "'a list \<Rightarrow> 'a list" where
  "spec_truncate xs = drop (length xs - capacity) xs"

definition spec_merge :: "'num Metrics list \<Rightarrow> 'num Metrics list \<Rightarrow> 'num Metrics list" where
  "spec_merge W S = spec_truncate (spec_dedup [] (W @ S))"

text \<open>The entries of a window that carry a given timestamp.\<close>

definition entries_for :: "string \<Rightarrow> 'num Metrics list \<Rightarrow> 'num Metrics list" where
  "entries_for ts xs = filter (\<lambda>m. timestamp m = ts) xs"

text \<open>The earliest sample, in arrival order, that carries a given timestamp.\<close>

definition first_arrival :: "string \<Rightarrow> 'num Metrics list \<Rightarrow> 'num Metrics option" where
  "first_arrival ts xs = List.find (\<lambda>m. timestamp m = ts) xs"

text \<open>
  The timestamps that make their first appearance after the earliest sample carrying
  \<open>ts\<close>.
\<close>

definition newer_timestamps :: "string \<Rightarrow> 'num Metrics list \<Rightarrow> string set" where
  "newer_timestamps ts xs =
     set (map timestamp (dropWhile (\<lambda>m. timestamp m \<noteq> ts) xs))
       - insert ts (set (map timestamp (takeWhile (\<lambda>m. timestamp m \<noteq> ts) xs)))"

section \<open>One fetch cycle on the component state\<close>

text \<open>
  \<^verbatim>\<open>fetchMetrics\<close>, seen from the completion of the request: the request either
  throws (\<open>Inl\<close>, the \<^verbatim>\<open>catch\<close> branch, which ignores what was thrown) or
  delivers \<^verbatim>\<open>response.data\<close> (\<open>Inr\<close>, the \<^verbatim>\<open>setMetrics\<close> branch).
\<close>

definition fetchMetrics :: "'e + 'num Metrics list \<Rightarrow> 'num component_state \<Rightarrow> 'num component_state" where
  "fetchMetrics response st =
     (case response of
        Inr data \<Rightarrow> st\<lparr>metrics := merge (metrics st) data\<rparr>
      | Inl err \<Rightarrow> st\<lparr>error := Some ''Error fetching data''\<rparr>)"

text \<open>A run of completed fetch cycles, in order of completion.\<close>

fun poll_cycles :: "('e + 'num Metrics list) list \<Rightarrow> 'num component_state \<Rightarrow> 'num component_state" where
  "poll_cycles [] st = st"
| "poll_cycles (r # rs) st = poll_cycles rs (fetchMetrics r st)"

text \<open>
  What the view shows of the error state (\<^verbatim>\<open>{error && <p ...>{error}</p>}\<close>): the
  paragraph is rendered when \<^verbatim>\<open>error\<close> is neither \<^verbatim>\<open>null\<close> nor the empty string.
\<close>

definition error_paragraph :: "'num component_state \<Rightarrow> string option" where
  "error_paragraph st =
     (case error st of None \<Rightarrow> None | Some e \<Rightarrow> if e = [] then None else Some e)"

section \<open>The state updater on a store of arrays\<close>

text \<open>
  JavaScript arrays are mutable objects reached through references. To speak about
  side effects, the updater is written once more over an explicit store: an address is
  an index into the list of all arrays, and an array literal with spreads,
  \<^verbatim>\<open>filter\<close> and \<^verbatim>\<open>slice\<close> each allocate a new array and write to no other.
\<close>

type_synonym 'a store = "'a list list"

definition new_array :: "'a list \<Rightarrow> 'a store \<Rightarrow> nat \<times> 'a store" where
  "new_array xs h = (length h, h @ [xs])"

definition updater_store :: "nat \<Rightarrow> nat \<Rightarrow> 'num Metrics store \<Rightarrow> nat \<times> 'num Metrics store" where
  "updater_store prevMetrics data h =
     (let (combined, h1) = new_array (h ! prevMetrics @ h ! data) h;
          (unique, h2) =
             new_array
               (array_filter
                  (\<lambda>metric index self.
                     index = findIndex (\<lambda>m. timestamp m = timestamp metric) self)
                  (h1 ! combined))
               h1
      in new_array (slice (- 10) (h2 ! unique)) h2)"

section \<open>Sample data for the scenarios\<close>

abbreviation sample :: "string \<Rightarrow> int \<Rightarrow> int \<Rightarrow> int Metrics" where
  "sample ts h p \<equiv> \<lparr>block_height = h, btc_price = p, timestamp = ts\<rparr>"

section \<open>The filter keeps first occurrences\<close>

lemma findIndex_from_first:
  "p x \<Longrightarrow> (findIndex_from p k (pre @ x # rest) = k + int (length pre)) = (\<forall>y\<in>set pre. \<not> p y)"
proof (induction pre arbitrary: k)
  case Nil
  then show ?case by simp
next
  case (Cons a pre)
  show ?case
  proof (cases "p a")
    case True
    then show ?thesis by simp
  next
    case False
    have "(findIndex_from p (k + 1) (pre @ x # rest) = k + 1 + int (length pre))
        = (\<forall>y\<in>set pre. \<not> p y)"
      using Cons.prems by (rule Cons.IH)
    with False show ?thesis by (simp add: add.assoc)
  qed
qed

lemma spec_dedup_seen_set:
  "set s1 = set s2 \<Longrightarrow> spec_dedup s1 xs = spec_dedup s2 xs"
proof (induction xs arbitrary: s1 s2)
  case Nil
  show ?case by simp
next
  case (Cons x xs)
  have "set (timestamp x # s1) = set (timestamp x # s2)"
    using Cons.prems by simp
  then have "spec_dedup (timestamp x # s1) xs = spec_dedup (timestamp x # s2) xs"
    by (rule Cons.IH)
  moreover have "spec_dedup s1 xs = spec_dedup s2 xs"
    using Cons.prems by (rule Cons.IH)
  ultimately show ?case
    using Cons.prems by simp
qed

lemma filter_from_spec_dedup:
  "filter_from (\<lambda>metric index self. index = findIndex (\<lambda>m. timestamp m = timestamp metric) self)
     (pre @ xs) (int (length pre)) xs
   = spec_dedup (map timestamp pre) xs"
proof (induction xs arbitrary: pre)
  case Nil
  show ?case by simp
next
  case (Cons x xs)
  let ?f = "\<lambda>metric index self. index = findIndex (\<lambda>m. timestamp m = timestamp metric) self"
  have keep: "?f x (int (length pre)) (pre @ x # xs) = (timestamp x \<notin> set (map timestamp pre))"
  proof -
    have "(findIndex_from (\<lambda>m. timestamp m = timestamp x) 0 (pre @ x # xs) = 0 + int (length pre))
        = (\<forall>y\<in>set pre. timestamp y \<noteq> timestamp x)"
      by (rule findIndex_from_first) simp
    moreover have "(\<forall>y\<in>set pre. timestamp y \<noteq> timestamp x)
        = (timestamp x \<notin> set (map timestamp pre))"
      by (auto simp: image_iff)
    ultimately show ?thesis
      unfolding findIndex_def by (simp add: eq_commute)
  qed
  have step: "filter_from ?f (pre @ x # xs) (int (length pre) + 1) xs
      = spec_dedup (map timestamp (pre @ [x])) xs"
    using Cons.IH [of "pre @ [x]"] by (simp add: add.commute)
  show ?case
  proof (cases "timestamp x \<in> set (map timestamp pre)")
    case True
    then have "set (map timestamp (pre @ [x])) = set (map timestamp pre)"
      by auto
    then have "spec_dedup (map timestamp (pre @ [x])) xs = spec_dedup (map timestamp pre) xs"
      by (rule spec_dedup_seen_set)
    with True keep step show ?thesis by simp
  next
    case False
    have "set (map timestamp (pre @ [x])) = set (timestamp x # map timestamp pre)"
      by auto
    then have "spec_dedup (map timestamp (pre @ [x])) xs
        = spec_dedup (timestamp x # map timestamp pre) xs"
      by (rule spec_dedup_seen_set)
    with False keep step show ?thesis by simp
  qed
qed

lemma uniqueMetrics_spec_dedup: "uniqueMetrics xs = spec_dedup [] xs"
  using filter_from_spec_dedup [of "[]" xs]
  by (simp add: uniqueMetrics_def array_filter_def)

lemma slice_last10: "slice (- 10) xs = drop (length xs - 10) xs"
proof -
  have "nat (max (int (length xs) + - 10) 0) = length xs - 10"
    by simp
  then show ?thesis
    by (simp add: slice_def Let_def)
qed

lemma merge_unfold:
  "merge W S = drop (length (spec_dedup [] (W @ S)) - 10) (spec_dedup [] (W @ S))"
  by (simp add: merge_def combinedMetrics_def uniqueMetrics_spec_dedup slice_last10)

lemma spec_dedup_fresh:
  "timestamp m \<in> set seen \<Longrightarrow> m \<notin> set (spec_dedup seen xs)"
  by (induction xs arbitrary: seen) auto

lemma spec_dedup_distinct: "distinct (map timestamp (spec_dedup seen xs))"
proof (induction xs arbitrary: seen)
  case Nil
  show ?case by simp
next
  case (Cons x xs)
  have "timestamp x \<notin> timestamp ` set (spec_dedup (timestamp x # seen) xs)"
    using spec_dedup_fresh [of _ "timestamp x # seen" xs] by force
  with Cons.IH show ?case by simp
qed

lemma spec_dedup_subseq: "subseq (spec_dedup seen xs) xs"
  by (induction xs arbitrary: seen) auto

lemma spec_dedup_timestamps:
  "timestamp ` set (spec_dedup seen xs) = timestamp ` set xs - set seen"
  by (induction xs arbitrary: seen) auto

lemma spec_dedup_id:
  "distinct (map timestamp xs) \<Longrightarrow> set (map timestamp xs) \<inter> set seen = {} \<Longrightarrow> spec_dedup seen xs = xs"
  by (induction xs arbitrary: seen) auto

lemma spec_dedup_all_seen:
  "set (map timestamp xs) \<subseteq> set seen \<Longrightarrow> spec_dedup seen xs = []"
  by (induction xs arbitrary: seen) auto

lemma spec_dedup_append:
  "spec_dedup seen (xs @ ys) = spec_dedup seen xs @ spec_dedup (map timestamp xs @ seen) ys"
proof (induction xs arbitrary: seen)
  case Nil
  show ?case by simp
next
  case (Cons x xs)
  show ?case
  proof (cases "timestamp x \<in> set seen")
    case True
    then have "set (map timestamp (x # xs) @ seen) = set (map timestamp xs @ seen)"
      by auto
    then have "spec_dedup (map timestamp (x # xs) @ seen) ys = spec_dedup (map timestamp xs @ seen) ys"
      by (rule spec_dedup_seen_set)
    with True Cons.IH [of seen] show ?thesis by simp
  next
    case False
    have "set (map timestamp (x # xs) @ seen) = set (map timestamp xs @ timestamp x # seen)"
      by auto
    then have "spec_dedup (map timestamp (x # xs) @ seen) ys
        = spec_dedup (map timestamp xs @ timestamp x # seen) ys"
      by (rule spec_dedup_seen_set)
    with False Cons.IH [of "timestamp x # seen"] show ?thesis by simp
  qed
qed

lemma spec_dedup_first_arrival:
  "m \<in> set (spec_dedup seen xs) \<Longrightarrow> first_arrival (timestamp m) xs = Some m"
proof (induction xs arbitrary: seen)
  case Nil
  then show ?case by simp
next
  case (Cons x xs)
  show ?case
  proof (cases "timestamp x = timestamp m")
    case True
    have "m \<notin> set (spec_dedup (timestamp x # seen) xs)"
      using True by (simp add: spec_dedup_fresh)
    moreover have "m \<notin> set (spec_dedup seen xs)" if "timestamp x \<in> set seen"
      using that True by (simp add: spec_dedup_fresh)
    ultimately have "m = x"
      using Cons.prems by (auto split: if_splits)
    then show ?thesis by (simp add: first_arrival_def)
  next
    case False
    then have "m \<in> set (spec_dedup seen xs) \<or> m \<in> set (spec_dedup (timestamp x # seen) xs)"
      using Cons.prems by (auto split: if_splits)
    then have "first_arrival (timestamp m) xs = Some m"
      using Cons.IH by blast
    with False show ?thesis by (simp add: first_arrival_def)
  qed
qed

section \<open>Consequences for the updater\<close>

lemma merge_set_subset: "set (merge W S) \<subseteq> set (spec_dedup [] (W @ S))"
  unfolding merge_unfold by (rule set_drop_subset)

lemma merge_length: "length (merge W S) \<le> 10"
  unfolding merge_unfold by simp

lemma merge_distinct: "distinct (map timestamp (merge W S))"
  unfolding merge_unfold drop_map [symmetric]
  by (rule distinct_drop) (rule spec_dedup_distinct)

lemma spec_dedup_length: "length (spec_dedup [] xs) = card (set (map timestamp xs))"
proof -
  have "length (spec_dedup [] xs) = length (map timestamp (spec_dedup [] xs))"
    by simp
  also have "\<dots> = card (set (map timestamp (spec_dedup [] xs)))"
    by (rule distinct_card [symmetric]) (rule spec_dedup_distinct)
  also have "set (map timestamp (spec_dedup [] xs)) = set (map timestamp xs)"
    using spec_dedup_timestamps [of "[]" xs] by simp
  finally show ?thesis .
qed

lemma merge_small:
  "card (set (map timestamp (W @ S))) \<le> 10 \<Longrightarrow> merge W S = spec_dedup [] (W @ S)"
  unfolding merge_unfold by (simp add: spec_dedup_length)

lemma entries_for_none: "ts \<notin> set (map timestamp xs) \<Longrightarrow> entries_for ts xs = []"
  by (induction xs) (auto simp: entries_for_def)

lemma entries_for_distinct:
  "distinct (map timestamp xs) \<Longrightarrow> m \<in> set xs \<Longrightarrow> entries_for (timestamp m) xs = [m]"
proof (induction xs)
  case Nil
  then show ?case by simp
next
  case (Cons x xs)
  show ?case
  proof (cases "m = x")
    case True
    have "timestamp x \<notin> set (map timestamp xs)"
      using Cons.prems(1) by simp
    then have "entries_for (timestamp x) xs = []"
      by (rule entries_for_none)
    with True show ?thesis by (simp add: entries_for_def)
  next
    case False
    then have m: "m \<in> set xs"
      using Cons.prems(2) by simp
    then have "timestamp x \<noteq> timestamp m"
      using Cons.prems(1) by auto
    moreover have "entries_for (timestamp m) xs = [m]"
      using Cons.prems(1) m by (simp add: Cons.IH)
    ultimately show ?thesis by (simp add: entries_for_def)
  qed
qed

lemma merge_entries_cases:
  "entries_for ts (merge W S) = []
   \<or> (\<exists>m. first_arrival ts (W @ S) = Some m \<and> entries_for ts (merge W S) = [m])"
proof (cases "ts \<in> set (map timestamp (merge W S))")
  case False
  then show ?thesis by (simp add: entries_for_none)
next
  case True
  then obtain m where m: "m \<in> set (merge W S)" and ts: "timestamp m = ts"
    by auto
  have "entries_for (timestamp m) (merge W S) = [m]"
    using merge_distinct m by (rule entries_for_distinct)
  moreover have "first_arrival (timestamp m) (W @ S) = Some m"
    using m merge_set_subset spec_dedup_first_arrival by blast
  ultimately show ?thesis using ts by blast
qed

lemma merge_entries_small:
  assumes "ts \<in> set (map timestamp (W @ S))" and "card (set (map timestamp (W @ S))) \<le> 10"
  shows "\<exists>m. first_arrival ts (W @ S) = Some m \<and> entries_for ts (merge W S) = [m]"
proof -
  have eq: "merge W S = spec_dedup [] (W @ S)"
    using assms(2) by (rule merge_small)
  have "set (map timestamp (merge W S)) = set (map timestamp (W @ S))"
    unfolding eq using spec_dedup_timestamps [of "[]" "W @ S"] by (simp add: image_Un)
  then have "ts \<in> set (map timestamp (merge W S))"
    using assms(1) by simp
  then have "entries_for ts (merge W S) \<noteq> []"
    by (auto simp: entries_for_def filter_empty_conv)
  then show ?thesis
    using merge_entries_cases [of ts W S] by simp
qed

lemma merge_replay:
  assumes "distinct (map timestamp W)" and "length W \<le> 10"
    and "set (map timestamp S) \<subseteq> set (map timestamp W)"
  shows "merge W S = W"
proof -
  have "spec_dedup [] W = W"
    using assms(1) by (simp add: spec_dedup_id)
  moreover have "spec_dedup (map timestamp W @ []) S = []"
    using assms(3) by (simp add: spec_dedup_all_seen)
  ultimately have "spec_dedup [] (W @ S) = W"
    by (simp add: spec_dedup_append)
  then show ?thesis
    using assms(2) by (simp add: merge_unfold)
qed

lemma merge_append_one:
  assumes "length W = 10" and "distinct (map timestamp W)"
    and "timestamp s \<notin> set (map timestamp W)"
  shows "merge W [s] = tl W @ [s]"
proof -
  have "distinct (map timestamp (W @ [s]))"
    using assms(2,3) by simp
  then have "spec_dedup [] (W @ [s]) = W @ [s]"
    by (simp add: spec_dedup_id)
  then have "merge W [s] = drop 1 (W @ [s])"
    using assms(1) by (simp add: merge_unfold)
  also have "\<dots> = tl W @ [s]"
    using assms(1) by (cases W) simp_all
  finally show ?thesis .
qed

lemma merge_subseq: "subseq (merge W S) (W @ S)"
proof -
  have "subseq (merge W S) (spec_dedup [] (W @ S))"
    unfolding merge_unfold by (metis append_take_drop_id subseq_drop_many subseq_order.order_refl)
  then show ?thesis
    using spec_dedup_subseq subseq_order.order_trans by blast
qed

section \<open>Which first occurrences survive the cut\<close>

lemma spec_dedup_length_seen:
  "length (spec_dedup seen xs) = card (set (map timestamp xs) - set seen)"
proof -
  have "length (spec_dedup seen xs) = length (map timestamp (spec_dedup seen xs))"
    by simp
  also have "\<dots> = card (set (map timestamp (spec_dedup seen xs)))"
    by (rule distinct_card [symmetric]) (rule spec_dedup_distinct)
  also have "set (map timestamp (spec_dedup seen xs)) = set (map timestamp xs) - set seen"
    using spec_dedup_timestamps [of seen xs] by simp
  finally show ?thesis .
qed

lemma first_split:
  assumes "ts \<in> set (map timestamp xs)"
  obtains pre m post where
    "xs = pre @ m # post"
    "takeWhile (\<lambda>m. timestamp m \<noteq> ts) xs = pre"
    "dropWhile (\<lambda>m. timestamp m \<noteq> ts) xs = m # post"
    "timestamp m = ts"
    "ts \<notin> set (map timestamp pre)"
proof -
  let ?P = "\<lambda>m. timestamp m \<noteq> ts"
  have "dropWhile ?P xs \<noteq> []"
    using assms by (auto simp: dropWhile_eq_Nil_conv)
  then obtain m post where d: "dropWhile ?P xs = m # post"
    by (cases "dropWhile ?P xs") auto
  then have "\<not> ?P m"
    using hd_dropWhile [of ?P xs] by auto
  moreover have "xs = takeWhile ?P xs @ m # post"
    using takeWhile_dropWhile_id [of ?P xs] d by simp
  moreover have "ts \<notin> set (map timestamp (takeWhile ?P xs))"
    using set_takeWhileD [of _ ?P xs] by auto
  ultimately show ?thesis
    using d that by blast
qed

lemma find_first:
  "ts \<notin> set (map timestamp pre) \<Longrightarrow> timestamp m = ts
   \<Longrightarrow> first_arrival ts (pre @ m # post) = Some m"
  by (induction pre) (auto simp: first_arrival_def)

lemma entries_for_append:
  "entries_for ts (xs @ ys) = entries_for ts xs @ entries_for ts ys"
  by (simp add: entries_for_def)

lemma entries_for_drop_none:
  "ts \<notin> set (map timestamp xs) \<Longrightarrow> entries_for ts (drop k xs) = []"
proof -
  assume "ts \<notin> set (map timestamp xs)"
  moreover have "set (drop k xs) \<subseteq> set xs"
    by (rule set_drop_subset)
  ultimately have "ts \<notin> set (map timestamp (drop k xs))"
    by auto
  then show ?thesis by (rule entries_for_none)
qed

lemma entries_for_drop_mid:
  assumes "ts \<notin> set (map timestamp A)" and "ts \<notin> set (map timestamp B)"
    and "timestamp m = ts"
  shows "entries_for ts (drop k (A @ m # B)) = (if k \<le> length A then [m] else [])"
proof (cases "k \<le> length A")
  case True
  then have "drop k (A @ m # B) = drop k A @ m # B"
    by simp
  moreover have "entries_for ts (drop k A) = []"
    using assms(1) by (rule entries_for_drop_none)
  moreover have "entries_for ts B = []"
    using assms(2) by (rule entries_for_none)
  moreover have "entries_for ts [m] = [m]"
    using assms(3) by (simp add: entries_for_def)
  ultimately show ?thesis
    using True entries_for_append [of ts "drop k A" "[m] @ B"] entries_for_append [of ts "[m]" B]
    by simp
next
  case False
  then have "drop k (A @ m # B) = drop (k - length A - 1) B"
    by (cases "k - length A") (simp_all add: drop_Cons')
  moreover have "entries_for ts (drop (k - length A - 1) B) = []"
    using assms(2) by (rule entries_for_drop_none)
  ultimately show ?thesis
    using False by simp
qed

lemma merge_entries_exact:
  assumes "ts \<in> set (map timestamp (W @ S))"
  shows "\<exists>m. first_arrival ts (W @ S) = Some m
    \<and> entries_for ts (merge W S)
        = (if card (newer_timestamps ts (W @ S)) < 10 then [m] else [])"
proof -
  let ?P = "\<lambda>m. timestamp m \<noteq> ts"
  obtain pre m post where xs: "W @ S = pre @ m # post"
    and t: "takeWhile ?P (W @ S) = pre"
    and d: "dropWhile ?P (W @ S) = m # post" and m: "timestamp m = ts"
    and pre: "ts \<notin> set (map timestamp pre)"
    using assms by (rule first_split)
  let ?A = "spec_dedup [] pre"
  let ?B = "spec_dedup (ts # map timestamp pre) post"
  have "spec_dedup [] (pre @ m # post) = ?A @ spec_dedup (map timestamp pre @ []) (m # post)"
    by (rule spec_dedup_append)
  also have "spec_dedup (map timestamp pre @ []) (m # post) = m # ?B"
    using pre m by simp
  finally have D: "spec_dedup [] (W @ S) = ?A @ m # ?B"
    by (simp only: xs)
  have A: "ts \<notin> set (map timestamp ?A)"
    using pre spec_dedup_timestamps [of "[]" pre] by simp
  have B: "ts \<notin> set (map timestamp ?B)"
    using spec_dedup_timestamps [of "ts # map timestamp pre" post] by simp
  have "set (map timestamp (m # post)) - insert ts (set (map timestamp pre))
      = set (map timestamp post) - set (ts # map timestamp pre)"
    using m by auto
  then have lenB: "length ?B = card (newer_timestamps ts (W @ S))"
    unfolding newer_timestamps_def d t by (simp only: spec_dedup_length_seen)
  have "entries_for ts (merge W S)
      = entries_for ts (drop (length (?A @ m # ?B) - 10) (?A @ m # ?B))"
    by (simp only: merge_unfold D)
  also have "\<dots> = (if length (?A @ m # ?B) - 10 \<le> length ?A then [m] else [])"
    using A B m by (rule entries_for_drop_mid)
  also have "(length (?A @ m # ?B) - 10 \<le> length ?A) = (length ?B < 10)"
    by auto
  finally have "entries_for ts (merge W S)
      = (if card (newer_timestamps ts (W @ S)) < 10 then [m] else [])"
    by (simp only: lenB)
  moreover have "first_arrival ts (W @ S) = Some m"
    unfolding xs using pre m by (rule find_first)
  ultimately show ?thesis by blast
qed

section \<open>Helper facts for the store and for runs of cycles\<close>

lemmas merge_eval =
  merge_def slice_def uniqueMetrics_def combinedMetrics_def array_filter_def findIndex_def

lemma updater_store_eq:
  assumes "p < length h" and "d < length h"
  shows "updater_store p d h
    = (length h + 2, h @ [h ! p @ h ! d, uniqueMetrics (h ! p @ h ! d), merge (h ! p) (h ! d)])"
  using assms
  by (simp add: updater_store_def new_array_def nth_append merge_def uniqueMetrics_def
      combinedMetrics_def)

lemma poll_cycles_error:
  "error st = Some ''Error fetching data'' \<Longrightarrow> error (poll_cycles rs st) = Some ''Error fetching data''"
proof (induction rs arbitrary: st)
  case Nil
  then show ?case by simp
next
  case (Cons r rs)
  have "error (fetchMetrics r st) = Some ''Error fetching data''"
    using Cons.prems by (cases r) (simp_all add: fetchMetrics_def)
  then show ?case
    by (simp add: Cons.IH)
qed

section \<open>The claims\<close>

subsection \<open>C1: the updater computes the three steps of the specification\<close>

text \<open>
  Claim C1. For every window \<open>W\<close> and sample sequence \<open>S\<close>, the updater returns what
  the specification describes: the concatenation of \<open>W\<close> and \<open>S\<close>, reduced to the
  first occurrence of every timestamp, cut to its last 10 elements. In particular a
  window of 10 entries with distinct timestamps, merged with one sample of a new
  timestamp, loses its first entry and gains the sample at the end.
\<close>

theorem merge_refines_spec:
  "merge W S = spec_merge W S
   \<and> (length W = 10 \<and> distinct (map timestamp W) \<and> timestamp s \<notin> set (map timestamp W)
        \<longrightarrow> merge W [s] = tl W @ [s])"
proof -
  have "merge W S = spec_merge W S"
    by (simp add: merge_unfold spec_merge_def spec_truncate_def capacity_def)
  then show ?thesis
    by (simp add: merge_append_one)
qed

text \<open>
  Scenario C of the specification, with the hypotheses of the second part discharged
  on the ten samples \<open>t1 .. t10\<close> and the new sample \<open>t11\<close>.
\<close>

theorem merge_refines_spec_witness:
  "length [sample ''t1'' 800000 60000, sample ''t2'' 800001 60010, sample ''t3'' 800002 60020,
           sample ''t4'' 800003 60030, sample ''t5'' 800004 60040, sample ''t6'' 800005 60050,
           sample ''t7'' 800006 60060, sample ''t8'' 800007 60070, sample ''t9'' 800008 60080,
           sample ''t10'' 800009 60090] = 10
   \<and> distinct (map timestamp
          [sample ''t1'' 800000 60000, sample ''t2'' 800001 60010, sample ''t3'' 800002 60020,
           sample ''t4'' 800003 60030, sample ''t5'' 800004 60040, sample ''t6'' 800005 60050,
           sample ''t7'' 800006 60060, sample ''t8'' 800007 60070, sample ''t9'' 800008 60080,
           sample ''t10'' 800009 60090])
   \<and> timestamp (sample ''t11'' 800010 60100) \<notin> set (map timestamp
          [sample ''t1'' 800000 60000, sample ''t2'' 800001 60010, sample ''t3'' 800002 60020,
           sample ''t4'' 800003 60030, sample ''t5'' 800004 60040, sample ''t6'' 800005 60050,
           sample ''t7'' 800006 60060, sample ''t8'' 800007 60070, sample ''t9'' 800008 60080,
           sample ''t10'' 800009 60090])
   \<and> merge [sample ''t1'' 800000 60000, sample ''t2'' 800001 60010, sample ''t3'' 800002 60020,
           sample ''t4'' 800003 60030, sample ''t5'' 800004 60040, sample ''t6'' 800005 60050,
           sample ''t7'' 800006 60060, sample ''t8'' 800007 60070, sample ''t9'' 800008 60080,
           sample ''t10'' 800009 60090]
          [sample ''t11'' 800010 60100]
      = [sample ''t2'' 800001 60010, sample ''t3'' 800002 60020,
           sample ''t4'' 800003 60030, sample ''t5'' 800004 60040, sample ''t6'' 800005 60050,
           sample ''t7'' 800006 60060, sample ''t8'' 800007 60070, sample ''t9'' 800008 60080,
           sample ''t10'' 800009 60090, sample ''t11'' 800010 60100]"
  using merge_refines_spec
    [of "[sample ''t1'' 800000 60000, sample ''t2'' 800001 60010, sample ''t3'' 800002 60020,
           sample ''t4'' 800003 60030, sample ''t5'' 800004 60040, sample ''t6'' 800005 60050,
           sample ''t7'' 800006 60060, sample ''t8'' 800007 60070, sample ''t9'' 800008 60080,
           sample ''t10'' 800009 60090]" "[]" "sample ''t11'' 800010 60100"]
  by simp

subsection \<open>C2: colliding timestamps\<close>

text \<open>
  Claim C2 says that whenever the concatenation holds two samples of one timestamp with
  different prices, the result holds exactly one entry of that timestamp. With a full
  window \<open>t1 .. t10\<close> and the fetched samples \<open>t1\<close> (another price) and \<open>t11\<close>, the
  concatenation holds eleven distinct timestamps, the cut to ten entries drops the entry
  of \<open>t1\<close>, and the result holds no entry of that timestamp at all.
\<close>

theorem merge_one_entry_counterexample:
  "entries_for ''t1''
     ([sample ''t1'' 800000 60000, sample ''t2'' 800001 60010, sample ''t3'' 800002 60020,
       sample ''t4'' 800003 60030, sample ''t5'' 800004 60040, sample ''t6'' 800005 60050,
       sample ''t7'' 800006 60060, sample ''t8'' 800007 60070, sample ''t9'' 800008 60080,
       sample ''t10'' 800009 60090]
      @ [sample ''t1'' 800000 99999, sample ''t11'' 800010 60100])
     = [sample ''t1'' 800000 60000, sample ''t1'' 800000 99999]
   \<and> btc_price (sample ''t1'' 800000 60000) \<noteq> btc_price (sample ''t1'' 800000 99999)
   \<and> entries_for ''t1''
       (merge
          [sample ''t1'' 800000 60000, sample ''t2'' 800001 60010, sample ''t3'' 800002 60020,
           sample ''t4'' 800003 60030, sample ''t5'' 800004 60040, sample ''t6'' 800005 60050,
           sample ''t7'' 800006 60060, sample ''t8'' 800007 60070, sample ''t9'' 800008 60080,
           sample ''t10'' 800009 60090]
          [sample ''t1'' 800000 99999, sample ''t11'' 800010 60100])
     = []"
  by (simp add: merge_eval entries_for_def)

text \<open>
  Claim C2, amended. For every timestamp the result holds either no entry or exactly one,
  and that one is the earliest sample of that timestamp in arrival order (window first,
  then the fetched samples); a later sample of the same timestamp is never kept. A
  timestamp occurring in the concatenation has its entry in the result exactly when
  fewer than 10 other timestamps make their first appearance after its earliest sample,
  and none otherwise. In particular, when the concatenation holds at most 10 distinct
  timestamps, every timestamp occurring in it has exactly one entry in the result.
\<close>

theorem merge_keeps_first_arrival:
  "(entries_for ts (merge W S) = []
      \<or> (\<exists>m. first_arrival ts (W @ S) = Some m \<and> entries_for ts (merge W S) = [m]))
   \<and> (ts \<in> set (map timestamp (W @ S))
        \<longrightarrow> (\<exists>m. first_arrival ts (W @ S) = Some m
              \<and> entries_for ts (merge W S)
                  = (if card (newer_timestamps ts (W @ S)) < 10 then [m] else [])))
   \<and> (ts \<in> set (map timestamp (W @ S)) \<and> card (set (map timestamp (W @ S))) \<le> 10
        \<longrightarrow> (\<exists>m. first_arrival ts (W @ S) = Some m \<and> entries_for ts (merge W S) = [m]))"
  using merge_entries_cases [of ts W S] merge_entries_exact [of ts W S]
    merge_entries_small [of ts W S]
  by blast

text \<open>
  Scenario B of the specification: the window's entry of \<open>t1\<close> wins over the fetched
  one.
\<close>

theorem merge_keeps_first_arrival_witness:
  "''t1'' \<in> set (map timestamp
       ([sample ''t1'' 800000 60000] @ [sample ''t1'' 800000 99999, sample ''t2'' 800001 60010]))
   \<and> card (set (map timestamp
       ([sample ''t1'' 800000 60000] @ [sample ''t1'' 800000 99999, sample ''t2'' 800001 60010])))
       \<le> 10
   \<and> card (newer_timestamps ''t1''
       ([sample ''t1'' 800000 60000] @ [sample ''t1'' 800000 99999, sample ''t2'' 800001 60010]))
       < 10
   \<and> first_arrival ''t1''
       ([sample ''t1'' 800000 60000] @ [sample ''t1'' 800000 99999, sample ''t2'' 800001 60010])
       = Some (sample ''t1'' 800000 60000)
   \<and> entries_for ''t1''
       (merge [sample ''t1'' 800000 60000] [sample ''t1'' 800000 99999, sample ''t2'' 800001 60010])
       = [sample ''t1'' 800000 60000]"
  using merge_keeps_first_arrival
    [of "''t1''" "[sample ''t1'' 800000 60000]"
        "[sample ''t1'' 800000 99999, sample ''t2'' 800001 60010]"]
  by (simp add: first_arrival_def newer_timestamps_def)

subsection \<open>C3: bounded size\<close>

text \<open>
  Claim C3. For every window and every sample sequence, with no precondition on either,
  the result has at most 10 elements.
\<close>

theorem merge_bounded: "length (merge W S) \<le> 10"
  by (rule merge_length)

subsection \<open>C4: idempotence under replay\<close>

text \<open>
  Claim C4. If the window has pairwise distinct timestamps and at most 10 elements, and
  every fetched sample carries a timestamp already present in the window, the updater
  returns the window unchanged.
\<close>

theorem merge_idempotent_replay:
  "distinct (map timestamp W) \<Longrightarrow> length W \<le> 10
   \<Longrightarrow> set (map timestamp S) \<subseteq> set (map timestamp W) \<Longrightarrow> merge W S = W"
  by (rule merge_replay)

text \<open>
  A window of two samples and a fetch that replays both timestamps, one of them with
  another price.
\<close>

theorem merge_idempotent_replay_witness:
  "distinct (map timestamp [sample ''t1'' 800000 60000, sample ''t2'' 800001 60010])
   \<and> length [sample ''t1'' 800000 60000, sample ''t2'' 800001 60010] \<le> 10
   \<and> set (map timestamp [sample ''t2'' 800001 99999, sample ''t1'' 800000 60000, sample ''t2'' 800001 60010])
       \<subseteq> set (map timestamp [sample ''t1'' 800000 60000, sample ''t2'' 800001 60010])
   \<and> merge [sample ''t1'' 800000 60000, sample ''t2'' 800001 60010]
        [sample ''t2'' 800001 99999, sample ''t1'' 800000 60000, sample ''t2'' 800001 60010]
      = [sample ''t1'' 800000 60000, sample ''t2'' 800001 60010]"
proof -
  have d: "distinct (map timestamp [sample ''t1'' 800000 60000, sample ''t2'' 800001 60010])"
    by simp
  have l: "length [sample ''t1'' 800000 60000, sample ''t2'' 800001 60010] \<le> 10"
    by simp
  have s: "set (map timestamp [sample ''t2'' 800001 99999, sample ''t1'' 800000 60000, sample ''t2'' 800001 60010])
       \<subseteq> set (map timestamp [sample ''t1'' 800000 60000, sample ''t2'' 800001 60010])"
    by simp
  show ?thesis
    using d l s merge_idempotent_replay [OF d l s] by simp
qed

subsection \<open>C5: arrival order\<close>

text \<open>
  Claim C5. The result is a subsequence of the concatenation of the window and the
  fetched samples: the retained samples keep their relative arrival order. They are not
  sorted by timestamp: two samples arriving as \<open>t2\<close>, \<open>t1\<close> stay in that order.
\<close>

theorem merge_preserves_arrival_order:
  "subseq (merge W S) (W @ S)
   \<and> merge [] [sample ''t2'' 800001 60010, sample ''t1'' 800000 60000]
       = [sample ''t2'' 800001 60010, sample ''t1'' 800000 60000]"
  by (simp add: merge_subseq) (simp add: merge_eval)

subsection \<open>C6: a failed fetch\<close>

text \<open>
  Claim C6. When the request throws, the cycle leaves the window as it was, sets the
  error state to the fixed message, and the view shows that message.
\<close>

theorem fetch_failure_keeps_window:
  "metrics (fetchMetrics (Inl err) st) = metrics st
   \<and> error (fetchMetrics (Inl err) st) = Some ''Error fetching data''
   \<and> error_paragraph (fetchMetrics (Inl err) st) = Some ''Error fetching data''"
  by (simp add: fetchMetrics_def error_paragraph_def)

subsection \<open>C7: no side effects\<close>

text \<open>
  Claim C7. On the store of arrays, the updater modifies no array that existed before the
  call (it only allocates), the array it returns is new and holds the value of
  \<open>merge\<close> on the contents of its two arguments, and two runs whose arguments have equal
  contents return arrays of equal contents, whatever else the two stores hold.
\<close>

theorem merge_pure:
  assumes "p < length h" and "d < length h" and "p' < length h'" and "d' < length h'"
    and "h ! p = h' ! p'" and "h ! d = h' ! d'"
  shows "take (length h) (snd (updater_store p d h)) = h
    \<and> length h \<le> fst (updater_store p d h)
    \<and> snd (updater_store p d h) ! fst (updater_store p d h) = merge (h ! p) (h ! d)
    \<and> snd (updater_store p d h) ! fst (updater_store p d h)
        = snd (updater_store p' d' h') ! fst (updater_store p' d' h')"
proof -
  have r: "updater_store p d h
      = (length h + 2, h @ [h ! p @ h ! d, uniqueMetrics (h ! p @ h ! d), merge (h ! p) (h ! d)])"
    using assms(1,2) by (rule updater_store_eq)
  have r': "updater_store p' d' h'
      = (length h' + 2,
         h' @ [h' ! p' @ h' ! d', uniqueMetrics (h' ! p' @ h' ! d'), merge (h' ! p') (h' ! d')])"
    using assms(3,4) by (rule updater_store_eq)
  have "take (length h) (snd (updater_store p d h)) = h"
    by (simp add: r)
  moreover have "length h \<le> fst (updater_store p d h)"
    by (simp add: r)
  moreover have out: "snd (updater_store p d h) ! fst (updater_store p d h) = merge (h ! p) (h ! d)"
    by (simp add: r nth_append)
  moreover have "snd (updater_store p' d' h') ! fst (updater_store p' d' h')
      = merge (h' ! p') (h' ! d')"
    by (simp add: r' nth_append)
  ultimately show ?thesis
    using assms(5,6) by simp
qed

text \<open>
  Two stores that hold the same window and the same fetched samples at different
  addresses, next to different other arrays.
\<close>

theorem merge_pure_witness:
  "(0::nat) < length [[sample ''t1'' 800000 60000], [sample ''t1'' 800000 99999, sample ''t2'' 800001 60010]]
   \<and> (1::nat) < length [[sample ''t1'' 800000 60000], [sample ''t1'' 800000 99999, sample ''t2'' 800001 60010]]
   \<and> (2::nat) < length [[sample ''t1'' 800000 99999, sample ''t2'' 800001 60010], [], [sample ''t1'' 800000 60000]]
   \<and> (0::nat) < length [[sample ''t1'' 800000 99999, sample ''t2'' 800001 60010], [], [sample ''t1'' 800000 60000]]
   \<and> take 2 (snd (updater_store 0 1
        [[sample ''t1'' 800000 60000], [sample ''t1'' 800000 99999, sample ''t2'' 800001 60010]]))
      = [[sample ''t1'' 800000 60000], [sample ''t1'' 800000 99999, sample ''t2'' 800001 60010]]
   \<and> snd (updater_store 0 1
        [[sample ''t1'' 800000 60000], [sample ''t1'' 800000 99999, sample ''t2'' 800001 60010]])
      ! fst (updater_store 0 1
        [[sample ''t1'' 800000 60000], [sample ''t1'' 800000 99999, sample ''t2'' 800001 60010]])
      = [sample ''t1'' 800000 60000, sample ''t2'' 800001 60010]
   \<and> snd (updater_store 2 0
        [[sample ''t1'' 800000 99999, sample ''t2'' 800001 60010], [], [sample ''t1'' 800000 60000]])
      ! fst (updater_store 2 0
        [[sample ''t1'' 800000 99999, sample ''t2'' 800001 60010], [], [sample ''t1'' 800000 60000]])
      = [sample ''t1'' 800000 60000, sample ''t2'' 800001 60010]"
  using merge_pure
    [of 0 "[[sample ''t1'' 800000 60000], [sample ''t1'' 800000 99999, sample ''t2'' 800001 60010]]"
        1
        2 "[[sample ''t1'' 800000 99999, sample ''t2'' 800001 60010], [], [sample ''t1'' 800000 60000]]"
        0]
  by (simp add: updater_store_def new_array_def merge_def uniqueMetrics_def combinedMetrics_def
      slice_def array_filter_def findIndex_def nth_append)

subsection \<open>C9: the invariants are re-established from any input\<close>

text \<open>
  Claim C9. Whatever the input window holds, duplicated timestamps or more than 10
  elements included, the result has pairwise distinct timestamps and at most 10 elements.
\<close>

theorem merge_restores_invariants:
  "distinct (map timestamp (merge W S)) \<and> length (merge W S) \<le> 10"
  by (simp add: merge_distinct merge_length)

subsection \<open>C10: the error state is never reset\<close>

text \<open>
  Claim C10. After a failed cycle, the error state holds the message after any further
  run of cycles, successful ones included, and the view keeps showing it; in particular
  a successful fetch right after the failure does not clear it.
\<close>

theorem error_never_cleared:
  "error (poll_cycles rs (fetchMetrics (Inl err) st)) = Some ''Error fetching data''
   \<and> error_paragraph (poll_cycles rs (fetchMetrics (Inl err) st)) = Some ''Error fetching data''
   \<and> error (fetchMetrics (Inr S) (fetchMetrics (Inl err) st)) = Some ''Error fetching data''"
proof -
  have e: "error (fetchMetrics (Inl err) st) = Some ''Error fetching data''"
    by (simp add: fetchMetrics_def)
  then have "error (poll_cycles rs (fetchMetrics (Inl err) st)) = Some ''Error fetching data''"
    by (rule poll_cycles_error)
  moreover from this have
    "error_paragraph (poll_cycles rs (fetchMetrics (Inl err) st)) = Some ''Error fetching data''"
    by (simp add: error_paragraph_def)
  moreover have "error (fetchMetrics (Inr S) (fetchMetrics (Inl err) st)) = Some ''Error fetching data''"
    by (simp add: fetchMetrics_def)
  ultimately show ?thesis by simp
qed

end
